theory Spec2Isabelle
  imports Complex_Main
begin

section \<open>The page and its controller\<close>

text \<open>
  \<^verbatim>\<open>script.js\<close> defines one class, \<^verbatim>\<open>Portfolio\<close>, built once when the
  document is ready. Its methods read and write a handful of page elements, the
  \<^verbatim>\<open>localStorage\<close> key \<^verbatim>\<open>darkMode\<close> and two kinds of timer. The embedding keeps
  the page as a record that every method takes and returns. A JavaScript string is a
  \<^typ>\<open>string\<close>, one \<^typ>\<open>char\<close> per code unit (code units below 256).

  Reading a property of \<^verbatim>\<open>null\<close> throws a \<^verbatim>\<open>TypeError\<close>. A method that can
  throw returns a sum: \<open>Inl (e, p)\<close> is the error \<open>e\<close> thrown with the page as it was
  at that moment (the writes made before the throw stay), \<open>Inr\<close> is normal completion.
\<close>

datatype error = TypeError | SyntaxError

subsection \<open>Elements\<close>

text \<open>Only the properties the script touches are kept. \<open>classList\<close> is a token set.\<close>

record element =
  classList :: "string set"

record text_el = element +
  textContent :: string

record hamburger_el = element +
  aria_expanded :: "string option"

record toggle_el = element +
  icon :: "element option"

record input_el = element +
  val :: string
  nextElementSibling :: "text_el option"

record success_el = text_el +
  display :: string

record fade_el = element +
  transitionDelay :: "rat option"
  observed :: bool

record entry =
  target :: nat
  isIntersecting :: bool

subsection \<open>Timers\<close>

datatype callback = TypingTick | HideSuccess

record timer =
  timer_id :: nat
  due :: nat
  action :: callback
  every :: "nat option"

record typing_state =
  full_text :: string
  idx :: nat
  typingInterval :: nat

record listeners =
  on_hamburger_click :: bool
  on_toggle_click :: bool
  on_anchor_click :: bool
  on_submit :: bool
  on_scroll :: bool

subsection \<open>The page\<close>

text \<open>
  The optional fields are what \<^verbatim>\<open>document.querySelector\<close> and
  \<^verbatim>\<open>document.getElementById\<close> find. The script never adds or removes an element, so
  the references \<^verbatim>\<open>init\<close> stores in \<^verbatim>\<open>this\<close> and a later lookup of the same
  selector give the same element; one field stands for both.
  \<open>inputs\<close> is \<^verbatim>\<open>document.getElementById\<close> on the form's controls, \<open>clock\<close> counts
  milliseconds.
\<close>

record page =
  body :: element
  navbar :: "element option"
  hamburger :: "hamburger_el option"
  mobileMenu :: "element option"
  darkModeToggle :: "toggle_el option"
  contactForm :: "unit option"
  yearElement :: "text_el option"
  typingText :: "text_el option"
  fadeElements :: "fade_el list"
  inputs :: "string \<rightharpoonup> input_el"
  formSuccess :: "success_el option"
  savedMode :: "string option"
  systemPrefersDark :: bool
  scrollY :: int
  scrollTo :: "int option"
  currentYear :: nat
  clock :: nat
  timers :: "timer list"
  next_timer_id :: nat
  typing :: "typing_state option"
  bound :: listeners

type_synonym 'a result = "(error \<times> page) + 'a"

definition throw :: "error \<Rightarrow> page \<Rightarrow> 'a result" where
  "throw e p = Inl (e, p)"

definition and_then :: "'a result \<Rightarrow> ('a \<Rightarrow> 'b result) \<Rightarrow> 'b result" where
  "and_then r f = (case r of Inl x \<Rightarrow> Inl x | Inr a \<Rightarrow> f a)"

text \<open>The page a handler leaves behind, thrown or not.\<close>

definition page_after :: "page result \<Rightarrow> page" where
  "page_after r = (case r of Inl (e, p) \<Rightarrow> p | Inr p \<Rightarrow> p)"

definition threw :: "'a result \<Rightarrow> bool" where
  "threw r = (case r of Inl x \<Rightarrow> True | Inr a \<Rightarrow> False)"

subsection \<open>\<^verbatim>\<open>DOMTokenList\<close>\<close>

definition cl_add :: "string \<Rightarrow> 'a element_scheme \<Rightarrow> 'a element_scheme" where
  "cl_add c e = e\<lparr>classList := insert c (classList e)\<rparr>"

definition cl_remove :: "string \<Rightarrow> 'a element_scheme \<Rightarrow> 'a element_scheme" where
  "cl_remove c e = e\<lparr>classList := classList e - {c}\<rparr>"

definition cl_contains :: "string \<Rightarrow> 'a element_scheme \<Rightarrow> bool" where
  "cl_contains c e = (c \<in> classList e)"

text \<open>\<^verbatim>\<open>toggle(c)\<close> returns whether the token is present afterwards.\<close>

definition cl_toggle :: "string \<Rightarrow> 'a element_scheme \<Rightarrow> 'a element_scheme \<times> bool" where
  "cl_toggle c e = (if c \<in> classList e then (cl_remove c e, False) else (cl_add c e, True))"

definition cl_toggle_force :: "string \<Rightarrow> bool \<Rightarrow> 'a element_scheme \<Rightarrow> 'a element_scheme" where
  "cl_toggle_force c force e = (if force then cl_add c e else cl_remove c e)"

subsection \<open>Strings\<close>

text \<open>
  \<^verbatim>\<open>String.prototype.trim\<close> and the regular expression class \<^verbatim>\<open>\s\<close> use the same
  set: white space and line terminators. Below 256 these are tab, line feed, vertical
  tab, form feed, carriage return, space and the no-break space.
\<close>

definition is_space :: "char \<Rightarrow> bool" where
  "is_space c = (of_char c \<in> {9, 10, 11, 12, 13, 32, 160 :: nat})"

definition trim :: "string \<Rightarrow> string" where
  "trim s = rev (dropWhile is_space (rev (dropWhile is_space s)))"

text \<open>
  \<^verbatim>\<open>toUpperCase\<close> on the letters \<^verbatim>\<open>a\<close> to \<^verbatim>\<open>z\<close>; the script applies it to the
  first letter of \<^verbatim>\<open>name\<close>, \<^verbatim>\<open>email\<close> and \<^verbatim>\<open>message\<close> only.
\<close>

definition toUpperCase :: "char \<Rightarrow> char" where
  "toUpperCase c =
     (if 97 \<le> (of_char c :: nat) \<and> (of_char c :: nat) \<le> 122
      then char_of ((of_char c :: nat) - 32) else c)"

text \<open>\<^verbatim>\<open>field.charAt(0).toUpperCase() + field.slice(1)\<close>\<close>

definition capitalize :: "string \<Rightarrow> string" where
  "capitalize field = map toUpperCase (take 1 field) @ drop 1 field"

fun digits :: "nat \<Rightarrow> string" where
  "digits n =
     (if n < 10 then [char_of (48 + n)] else digits (n div 10) @ [char_of (48 + n mod 10)])"

subsection \<open>The regular expression of \<^verbatim>\<open>validateEmail\<close>\<close>

text \<open>
  \<^verbatim>\<open>/^[^\s@]+@[^\s@]+\.[^\s@]+$/\<close> has no flag, so \<^verbatim>\<open>^\<close> and \<^verbatim>\<open>$\<close> are the two
  ends of the input and \<^verbatim>\<open>test\<close> asks whether the whole string matches. The expression
  is kept as a term; \<open>NoneOf True cs\<close> is the negated class \<^verbatim>\<open>[^\s...]\<close> over the
  characters \<open>cs\<close>. Matching is by derivatives.
\<close>

datatype rexp =
  Nul
  | Eps
  | Chr char
  | NoneOf bool "char list"
  | Alt rexp rexp
  | Cat rexp rexp
  | Star rexp
  | Plus rexp

fun nullable :: "rexp \<Rightarrow> bool" where
  "nullable Nul = False"
| "nullable Eps = True"
| "nullable (Chr c) = False"
| "nullable (NoneOf ws cs) = False"
| "nullable (Alt r s) = (nullable r \<or> nullable s)"
| "nullable (Cat r s) = (nullable r \<and> nullable s)"
| "nullable (Star r) = True"
| "nullable (Plus r) = nullable r"

fun deriv :: "char \<Rightarrow> rexp \<Rightarrow> rexp" where
  "deriv a Nul = Nul"
| "deriv a Eps = Nul"
| "deriv a (Chr c) = (if a = c then Eps else Nul)"
| "deriv a (NoneOf ws cs) = (if (ws \<and> is_space a) \<or> a \<in> set cs then Nul else Eps)"
| "deriv a (Alt r s) = Alt (deriv a r) (deriv a s)"
| "deriv a (Cat r s) =
     (if nullable r then Alt (Cat (deriv a r) s) (deriv a s) else Cat (deriv a r) s)"
| "deriv a (Star r) = Cat (deriv a r) (Star r)"
| "deriv a (Plus r) = Cat (deriv a r) (Star r)"

fun matches :: "rexp \<Rightarrow> string \<Rightarrow> bool" where
  "matches r [] = nullable r"
| "matches r (a # s) = matches (deriv a r) s"

definition email_re :: rexp where
  "email_re =
     Cat (Plus (NoneOf True ''@''))
       (Cat (Chr CHR ''@'')
         (Cat (Plus (NoneOf True ''@''))
           (Cat (Chr CHR ''.'') (Plus (NoneOf True ''@'')))))"

definition validateEmail :: "string \<Rightarrow> bool" where
  "validateEmail email = matches email_re email"

subsection \<open>Timers\<close>

definition setInterval :: "callback \<Rightarrow> nat \<Rightarrow> page \<Rightarrow> nat \<times> page" where
  "setInterval cb ms p =
     (next_timer_id p,
      p\<lparr>timers := timers p @
           [\<lparr>timer_id = next_timer_id p, due = clock p + ms, action = cb, every = Some ms\<rparr>],
        next_timer_id := Suc (next_timer_id p)\<rparr>)"

definition setTimeout :: "callback \<Rightarrow> nat \<Rightarrow> page \<Rightarrow> nat \<times> page" where
  "setTimeout cb ms p =
     (next_timer_id p,
      p\<lparr>timers := timers p @
           [\<lparr>timer_id = next_timer_id p, due = clock p + ms, action = cb, every = None\<rparr>],
        next_timer_id := Suc (next_timer_id p)\<rparr>)"

definition clearInterval :: "nat \<Rightarrow> page \<Rightarrow> page" where
  "clearInterval i p = p\<lparr>timers := filter (\<lambda>t. timer_id t \<noteq> i) (timers p)\<rparr>"

section \<open>The methods of \<^verbatim>\<open>Portfolio\<close>\<close>

subsection \<open>\<^verbatim>\<open>setupEventListeners\<close>\<close>

text \<open>
  \<^verbatim>\<open>?.\<close> skips the call when the element is \<^verbatim>\<open>null\<close>. Every anchor whose
  \<^verbatim>\<open>href\<close> starts with \<^verbatim>\<open>#\<close> gets a click listener, and \<^verbatim>\<open>window\<close> always gets
  the scroll listener.
\<close>

definition setupEventListeners :: "page \<Rightarrow> page" where
  "setupEventListeners p =
     p\<lparr>bound := \<lparr>on_hamburger_click = (hamburger p \<noteq> None),
                  on_toggle_click = (darkModeToggle p \<noteq> None),
                  on_anchor_click = True,
                  on_submit = (contactForm p \<noteq> None),
                  on_scroll = True\<rparr>\<rparr>"

subsection \<open>\<^verbatim>\<open>typeEffect\<close> and its interval callback\<close>

definition typeEffect :: "page \<Rightarrow> page result" where
  "typeEffect p =
     (case typingText p of
        None \<Rightarrow> throw TypeError p
      | Some el \<Rightarrow>
          let text = textContent el;
              p1 = p\<lparr>typingText := Some (el\<lparr>textContent := []\<rparr>)\<rparr>;
              (i, p2) = setInterval TypingTick 100 p1
          in Inr (p2\<lparr>typing := Some \<lparr>full_text = text, idx = 0, typingInterval = i\<rparr>\<rparr>))"

definition typing_tick :: "page \<Rightarrow> page" where
  "typing_tick p =
     (case typing p of
        None \<Rightarrow> p
      | Some ts \<Rightarrow>
          if idx ts < length (full_text ts)
          then p\<lparr>typingText :=
                   map_option (\<lambda>el. el\<lparr>textContent := textContent el @ [full_text ts ! idx ts]\<rparr>)
                     (typingText p),
                 typing := Some (ts\<lparr>idx := Suc (idx ts)\<rparr>)\<rparr>
          else clearInterval (typingInterval ts) p)"

subsection \<open>\<^verbatim>\<open>toggleMobileMenu\<close>\<close>

definition string_of_bool :: "bool \<Rightarrow> string" where
  "string_of_bool b = (if b then ''true'' else ''false'')"

definition toggleMobileMenu :: "page \<Rightarrow> page result" where
  "toggleMobileMenu p =
     (case mobileMenu p of
        None \<Rightarrow> throw TypeError p
      | Some m \<Rightarrow>
          let p1 = p\<lparr>mobileMenu := Some (fst (cl_toggle ''active'' m))\<rparr>
          in (case hamburger p1 of
                None \<Rightarrow> throw TypeError p1
              | Some h \<Rightarrow>
                  let h1 = fst (cl_toggle ''active'' h);
                      isExpanded = (aria_expanded h1 = Some ''true'')
                  in Inr (p1\<lparr>hamburger :=
                             Some (h1\<lparr>aria_expanded := Some (string_of_bool (\<not> isExpanded))\<rparr>)\<rparr>)))"

subsection \<open>Dark mode\<close>

text \<open>\<^verbatim>\<open>!savedMode\<close>: \<^verbatim>\<open>null\<close> and the empty string are falsy.\<close>

definition falsy :: "string option \<Rightarrow> bool" where
  "falsy s = (s = None \<or> s = Some [])"

definition updateDarkModeIcon :: "bool \<Rightarrow> page \<Rightarrow> page result" where
  "updateDarkModeIcon isDarkMode p =
     (case darkModeToggle p of
        None \<Rightarrow> throw TypeError p
      | Some t \<Rightarrow>
          (case icon t of
             None \<Rightarrow> throw TypeError p
           | Some i \<Rightarrow>
               Inr (p\<lparr>darkModeToggle :=
                        Some (t\<lparr>icon :=
                           Some (cl_toggle_force ''fa-sun'' isDarkMode
                                  (cl_toggle_force ''fa-moon'' (\<not> isDarkMode) i))\<rparr>)\<rparr>)))"

definition initDarkMode :: "page \<Rightarrow> page result" where
  "initDarkMode p =
     (if savedMode p = Some ''dark'' \<or> (falsy (savedMode p) \<and> systemPrefersDark p)
      then updateDarkModeIcon True (p\<lparr>body := cl_add ''dark-mode'' (body p)\<rparr>)
      else Inr p)"

definition toggleDarkMode :: "page \<Rightarrow> page result" where
  "toggleDarkMode p =
     (let (b, isDarkMode) = cl_toggle ''dark-mode'' (body p)
      in and_then (updateDarkModeIcon isDarkMode (p\<lparr>body := b\<rparr>))
           (\<lambda>p2. Inr (p2\<lparr>savedMode := Some (if isDarkMode then ''dark'' else ''light'')\<rparr>)))"

subsection \<open>\<^verbatim>\<open>handleSmoothScroll\<close> and \<^verbatim>\<open>handleNavbarScroll\<close>\<close>

text \<open>
  What \<^verbatim>\<open>document.querySelector(targetId)\<close> does with the anchor's \<^verbatim>\<open>href\<close> is the
  page's business: it throws on a string that is no selector (a bare \<^verbatim>\<open>#\<close>), finds
  nothing, or finds an element, of which the script reads \<^verbatim>\<open>offsetTop\<close>.
\<close>

datatype lookup = InvalidSelector | NoMatch | Match int

definition handleSmoothScroll :: "lookup \<Rightarrow> page \<Rightarrow> page result" where
  "handleSmoothScroll l p =
     (case l of
        InvalidSelector \<Rightarrow> throw SyntaxError p
      | NoMatch \<Rightarrow> Inr p
      | Match offsetTop \<Rightarrow>
          let p1 = p\<lparr>scrollTo := Some (offsetTop - 80)\<rparr>
          in if (case mobileMenu p1 of None \<Rightarrow> False | Some m \<Rightarrow> cl_contains ''active'' m)
             then toggleMobileMenu p1 else Inr p1)"

definition handleNavbarScroll :: "page \<Rightarrow> page result" where
  "handleNavbarScroll p =
     (case navbar p of
        None \<Rightarrow> throw TypeError p
      | Some n \<Rightarrow>
          Inr (p\<lparr>navbar :=
                   Some (if scrollY p > 50 then cl_add ''scrolled'' n
                         else cl_remove ''scrolled'' n)\<rparr>))"

subsection \<open>\<^verbatim>\<open>setupScrollAnimations\<close> and the observer's callback\<close>

text \<open>
  \<^verbatim>\<open>index * 0.1\<close> is a product of doubles in the script; the model keeps the exact
  product, in seconds.
\<close>

definition setupScrollAnimations :: "page \<Rightarrow> page" where
  "setupScrollAnimations p =
     (if length (fadeElements p) > 0
      then p\<lparr>fadeElements :=
               map (\<lambda>(index, el). el\<lparr>transitionDelay := Some (of_nat index * (1 / 10)),
                                      observed := True\<rparr>)
                 (enumerate 0 (fadeElements p))\<rparr>
      else p)"

definition on_entry :: "entry \<Rightarrow> page \<Rightarrow> page" where
  "on_entry en p =
     (if isIntersecting en \<and> target en < length (fadeElements p)
      then p\<lparr>fadeElements :=
               (fadeElements p)[target en :=
                  (cl_add ''visible'' (fadeElements p ! target en))\<lparr>observed := False\<rparr>]\<rparr>
      else p)"

definition observer_callback :: "entry list \<Rightarrow> page \<Rightarrow> page" where
  "observer_callback entries p = fold on_entry entries p"

text \<open>The browser reports only elements the observer is observing.\<close>

definition intersect :: "entry list \<Rightarrow> page \<Rightarrow> page" where
  "intersect entries p =
     observer_callback
       (filter (\<lambda>en. target en < length (fadeElements p) \<and> observed (fadeElements p ! target en))
          entries) p"

subsection \<open>The contact form\<close>

definition showError :: "string \<Rightarrow> string \<Rightarrow> page \<Rightarrow> page result" where
  "showError field message p =
     (case inputs p field of
        None \<Rightarrow> throw TypeError p
      | Some input \<Rightarrow>
          (case nextElementSibling input of
             None \<Rightarrow> throw TypeError p
           | Some errorElement \<Rightarrow>
               Inr (p\<lparr>inputs := (inputs p)(field \<mapsto>
                      cl_add ''error''
                        (input\<lparr>nextElementSibling :=
                                   Some (errorElement\<lparr>textContent := message\<rparr>)\<rparr>))\<rparr>)))"

definition success_text :: string where
  "success_text = ''Thank you for your message! I will get back to you soon.''"

definition showSuccessMessage :: "page \<Rightarrow> page result" where
  "showSuccessMessage p =
     (case formSuccess p of
        None \<Rightarrow> throw TypeError p
      | Some el \<Rightarrow>
          Inr (snd (setTimeout HideSuccess 5000
                 (p\<lparr>formSuccess :=
                      Some (el\<lparr>textContent := success_text, display := ''block''\<rparr>)\<rparr>))))"

definition hide_success :: "page \<Rightarrow> page" where
  "hide_success p =
     p\<lparr>formSuccess := map_option (\<lambda>el. el\<lparr>display := ''none''\<rparr>) (formSuccess p)\<rparr>"

text \<open>
  \<^verbatim>\<open>querySelectorAll('.error-message')\<close>: of the elements of the model, the ones that
  can carry that class are the siblings of the form's controls.
\<close>

definition reset_error_messages :: "page \<Rightarrow> page" where
  "reset_error_messages p =
     p\<lparr>inputs := (\<lambda>k. map_option
          (\<lambda>input. input\<lparr>nextElementSibling :=
             map_option (\<lambda>el. if cl_contains ''error-message'' el
                               then el\<lparr>textContent := []\<rparr> else el)
               (nextElementSibling input)\<rparr>)
          (inputs p k))\<rparr>"

text \<open>
  \<^verbatim>\<open>HTMLFormElement.reset\<close> gives every control its default value back; the controls
  of the page carry no preset value, so that is the empty string.
\<close>

definition form_reset :: "page \<Rightarrow> page result" where
  "form_reset p =
     (case contactForm p of
        None \<Rightarrow> throw TypeError p
      | Some form \<Rightarrow>
          Inr (p\<lparr>inputs := (\<lambda>k. map_option (\<lambda>input. input\<lparr>val := []\<rparr>) (inputs p k))\<rparr>))"

text \<open>The body of the \<^verbatim>\<open>forEach\<close> over the three field names; \<open>isValid\<close> is threaded.\<close>

definition validate_field :: "string \<Rightarrow> page \<times> bool \<Rightarrow> (page \<times> bool) result" where
  "validate_field field s =
     (case s of (p, isValid) \<Rightarrow>
        (case inputs p field of
           None \<Rightarrow> throw TypeError p
         | Some input \<Rightarrow>
             let v = trim (val input)
             in if v = []
                then and_then (showError field (capitalize field @ '' is required'') p)
                       (\<lambda>p1. Inr (p1, False))
                else if field = ''email'' \<and> \<not> validateEmail v
                then and_then (showError field ''Please enter a valid email'' p)
                       (\<lambda>p1. Inr (p1, False))
                else Inr (p, isValid)))"

fun forEach :: "('a \<Rightarrow> 's \<Rightarrow> 's result) \<Rightarrow> 'a list \<Rightarrow> 's \<Rightarrow> 's result" where
  "forEach f [] s = Inr s"
| "forEach f (x # xs) s = and_then (f x s) (forEach f xs)"

definition handleFormSubmit :: "page \<Rightarrow> page result" where
  "handleFormSubmit p =
     and_then (forEach validate_field [''name'', ''email'', ''message'']
                 (reset_error_messages p, True))
       (\<lambda>(p1, isValid).
          if isValid then and_then (showSuccessMessage p1) form_reset else Inr p1)"

subsection \<open>\<^verbatim>\<open>setCopyrightYear\<close> and \<^verbatim>\<open>init\<close>\<close>

definition setCopyrightYear :: "page \<Rightarrow> page" where
  "setCopyrightYear p =
     (case yearElement p of
        None \<Rightarrow> p
      | Some el \<Rightarrow> p\<lparr>yearElement := Some (el\<lparr>textContent := digits (currentYear p)\<rparr>)\<rparr>)"

definition init :: "page \<Rightarrow> page result" where
  "init p =
     and_then (initDarkMode (setCopyrightYear (setupScrollAnimations (setupEventListeners p))))
       (\<lambda>p1. if typingText p1 \<noteq> None then typeEffect p1 else Inr p1)"

section \<open>The event loop\<close>

subsection \<open>Running timers\<close>

text \<open>
  The browser runs the pending timer that is due first (the one registered first among
  equals), with the clock at its due time. A timeout is dropped when it runs, an interval
  is set again one period later (at least a millisecond) unless its callback clears it.
  \<open>run_until t\<close> lets the time pass up to \<open>t\<close> with no other event.
\<close>

definition run_callback :: "callback \<Rightarrow> page \<Rightarrow> page" where
  "run_callback cb p = (case cb of TypingTick \<Rightarrow> typing_tick p | HideSuccess \<Rightarrow> hide_success p)"

fun earliest :: "timer list \<Rightarrow> nat option" where
  "earliest [] = None"
| "earliest (x # xs) =
     (case earliest xs of
        None \<Rightarrow> Some 0
      | Some j \<Rightarrow> if due (xs ! j) < due x then Some (Suc j) else Some 0)"

definition next_timer :: "nat \<Rightarrow> page \<Rightarrow> nat option" where
  "next_timer t p =
     (case earliest (timers p) of
        None \<Rightarrow> None
      | Some i \<Rightarrow> if due (timers p ! i) \<le> t then Some i else None)"

definition fire :: "nat \<Rightarrow> page \<Rightarrow> page" where
  "fire i p =
     (let tm = timers p ! i;
          p1 = p\<lparr>clock := max (clock p) (due tm),
                 timers := (case every tm of
                              None \<Rightarrow> take i (timers p) @ drop (Suc i) (timers p)
                            | Some ms \<Rightarrow> (timers p)[i := tm\<lparr>due := due tm + max 1 ms\<rparr>])\<rparr>
      in run_callback (action tm) p1)"

definition backlog :: "nat \<Rightarrow> page \<Rightarrow> nat" where
  "backlog t p = sum_list (map (\<lambda>x. Suc t - due x) (timers p))"

lemma earliest_less: "earliest ts = Some i \<Longrightarrow> i < length ts"
  by (induction ts arbitrary: i) (auto split: option.splits if_splits)

lemma next_timer_SomeD:
  "next_timer t p = Some i \<Longrightarrow> i < length (timers p) \<and> due (timers p ! i) \<le> t"
  by (auto simp: next_timer_def split: option.splits if_splits dest: earliest_less)

lemma sum_list_filter_le: "sum_list (map f (filter P xs)) \<le> sum_list (map (f :: 'a \<Rightarrow> nat) xs)"
  by (induction xs) auto

lemma backlog_run_callback: "backlog t (run_callback cb p) \<le> backlog t p"
  by (cases cb)
     (auto simp: run_callback_def backlog_def typing_tick_def hide_success_def clearInterval_def
        sum_list_filter_le split: option.splits)

lemma sum_list_map_update:
  "i < length xs \<Longrightarrow> sum_list (map f (xs[i := y])) + f (xs ! i) = sum_list (map f xs) + (f y :: nat)"
  by (induction xs arbitrary: i) (auto split: nat.splits)

lemma sum_list_map_remove:
  "i < length xs \<Longrightarrow> sum_list (map f (take i xs @ drop (Suc i) xs)) + (f (xs ! i) :: nat) = sum_list (map f xs)"
proof -
  assume i: "i < length xs"
  have "sum_list (map f xs) = sum_list (map f (take i xs @ xs ! i # drop (Suc i) xs))"
    using id_take_nth_drop [OF i] by simp
  then show ?thesis by simp
qed

lemma backlog_fire:
  assumes "next_timer t p = Some i"
  shows "backlog t (fire i p) < backlog t p"
proof -
  from assms have i: "i < length (timers p)" and d: "due (timers p ! i) \<le> t"
    by (auto dest: next_timer_SomeD)
  let ?tm = "timers p ! i"
  let ?f = "\<lambda>x. Suc t - due x"
  let ?ts = "case every ?tm of
               None \<Rightarrow> take i (timers p) @ drop (Suc i) (timers p)
             | Some ms \<Rightarrow> (timers p)[i := ?tm\<lparr>due := due ?tm + max 1 ms\<rparr>]"
  have "sum_list (map ?f ?ts) < sum_list (map ?f (timers p))"
  proof (cases "every ?tm")
    case None
    with sum_list_map_remove [OF i, of ?f] d show ?thesis by simp
  next
    case (Some ms)
    with sum_list_map_update [OF i, of ?f "?tm\<lparr>due := due ?tm + max 1 ms\<rparr>"] d
    show ?thesis by simp
  qed
  moreover have "backlog t (fire i p) \<le> sum_list (map ?f ?ts)"
    unfolding fire_def Let_def
    by (rule order_trans [OF backlog_run_callback]) (simp add: backlog_def)
  ultimately show ?thesis by (simp add: backlog_def)
qed

function run_until :: "nat \<Rightarrow> page \<Rightarrow> page" where
  "run_until t p =
     (case next_timer t p of
        None \<Rightarrow> p\<lparr>clock := max (clock p) t\<rparr>
      | Some i \<Rightarrow> run_until t (fire i p))"
  by pat_completeness auto
termination
  by (relation "measure (\<lambda>(t, p). backlog t p)") (auto simp: backlog_fire)

subsection \<open>Events\<close>

text \<open>
  What can happen after the page has loaded: a click on the hamburger, on the theme
  toggle or on an in-page anchor, a submit of the form, a scroll to an offset, a report
  of the intersection observer, time passing, and the user editing a control.
  A listener runs only if \<^verbatim>\<open>setupEventListeners\<close> bound it. An exception that leaves a
  handler ends that handler; the page stays as it was at the throw.
\<close>

datatype event =
  HamburgerClick
  | ToggleClick
  | AnchorClick lookup
  | FormSubmit
  | WindowScroll int
  | Intersection "entry list"
  | TimePasses nat
  | UserTypes string string

definition user_types :: "string \<Rightarrow> string \<Rightarrow> page \<Rightarrow> page" where
  "user_types field v p =
     (case inputs p field of
        None \<Rightarrow> p
      | Some input \<Rightarrow> p\<lparr>inputs := (inputs p)(field \<mapsto> input\<lparr>val := v\<rparr>)\<rparr>)"

definition dispatch :: "event \<Rightarrow> page \<Rightarrow> page result" where
  "dispatch ev p =
     (case ev of
        HamburgerClick \<Rightarrow> if on_hamburger_click (bound p) then toggleMobileMenu p else Inr p
      | ToggleClick \<Rightarrow> if on_toggle_click (bound p) then toggleDarkMode p else Inr p
      | AnchorClick l \<Rightarrow> if on_anchor_click (bound p) then handleSmoothScroll l p else Inr p
      | FormSubmit \<Rightarrow> if on_submit (bound p) then handleFormSubmit p else Inr p
      | WindowScroll y \<Rightarrow>
          if on_scroll (bound p) then handleNavbarScroll (p\<lparr>scrollY := y\<rparr>)
          else Inr (p\<lparr>scrollY := y\<rparr>)
      | Intersection entries \<Rightarrow> Inr (intersect entries p)
      | TimePasses d \<Rightarrow> Inr (run_until (clock p + d) p)
      | UserTypes field v \<Rightarrow> Inr (user_types field v p))"

definition step :: "page \<Rightarrow> event \<Rightarrow> page" where
  "step p ev = page_after (dispatch ev p)"


text \<open>\<^verbatim>\<open>DOMContentLoaded\<close>: the constructor runs \<^verbatim>\<open>init\<close> once.\<close>

definition load :: "page \<Rightarrow> page" where
  "load p = page_after (init p)"

section \<open>What a visitor sees\<close>

definition is_dark :: "page \<Rightarrow> bool" where
  "is_dark p = cl_contains ''dark-mode'' (body p)"

definition icon_classes :: "page \<Rightarrow> string set option" where
  "icon_classes p =
     (case darkModeToggle p of
        None \<Rightarrow> None
      | Some t \<Rightarrow> map_option classList (icon t))"

definition shows_sun :: "page \<Rightarrow> bool" where
  "shows_sun p =
     (case icon_classes p of
        None \<Rightarrow> False
      | Some cs \<Rightarrow> ''fa-sun'' \<in> cs \<and> ''fa-moon'' \<notin> cs)"

definition shows_moon :: "page \<Rightarrow> bool" where
  "shows_moon p =
     (case icon_classes p of
        None \<Rightarrow> False
      | Some cs \<Rightarrow> ''fa-moon'' \<in> cs \<and> ''fa-sun'' \<notin> cs)"

definition menu_open :: "page \<Rightarrow> bool" where
  "menu_open p = (case mobileMenu p of None \<Rightarrow> False | Some m \<Rightarrow> cl_contains ''active'' m)"

definition expanded :: "page \<Rightarrow> bool" where
  "expanded p = (case hamburger p of None \<Rightarrow> False | Some h \<Rightarrow> aria_expanded h = Some ''true'')"

definition entered :: "page \<Rightarrow> string \<Rightarrow> string" where
  "entered p field = (case inputs p field of None \<Rightarrow> [] | Some input \<Rightarrow> trim (val input))"

definition field_value :: "page \<Rightarrow> string \<Rightarrow> string option" where
  "field_value p field = map_option val (inputs p field)"

definition error_message :: "page \<Rightarrow> string \<Rightarrow> string option" where
  "error_message p field =
     (case inputs p field of
        None \<Rightarrow> None
      | Some input \<Rightarrow> map_option textContent (nextElementSibling input))"

definition marked_invalid :: "page \<Rightarrow> string \<Rightarrow> bool" where
  "marked_invalid p field =
     (case inputs p field of None \<Rightarrow> False | Some input \<Rightarrow> cl_contains ''error'' input)"

definition success_display :: "page \<Rightarrow> string option" where
  "success_display p = map_option display (formSuccess p)"

definition success_shown :: "page \<Rightarrow> string option" where
  "success_shown p = map_option textContent (formSuccess p)"

definition typed_text :: "page \<Rightarrow> string option" where
  "typed_text p = map_option textContent (typingText p)"

text \<open>
  The markup the script expects of the form: the three controls, each followed by an
  element of class \<^verbatim>\<open>error-message\<close>, inside the form, and the success element.
\<close>

definition has_error_box :: "page \<Rightarrow> string \<Rightarrow> bool" where
  "has_error_box p field =
     (case inputs p field of
        None \<Rightarrow> False
      | Some input \<Rightarrow>
          (case nextElementSibling input of
             None \<Rightarrow> False
           | Some el \<Rightarrow> cl_contains ''error-message'' el))"

definition form_ready :: "page \<Rightarrow> bool" where
  "form_ready p =
     (has_error_box p ''name'' \<and> has_error_box p ''email'' \<and> has_error_box p ''message''
      \<and> formSuccess p \<noteq> None \<and> contactForm p \<noteq> None)"

subsection \<open>A sample page\<close>

definition blank_input :: input_el where
  "blank_input =
     \<lparr>classList = {}, val = [],
      nextElementSibling = Some \<lparr>classList = {''error-message''}, textContent = []\<rparr>\<rparr>"

definition pending_fade :: fade_el where
  "pending_fade = \<lparr>classList = {''fade-in''}, transitionDelay = None, observed = False\<rparr>"

definition sample_page :: page where
  "sample_page =
     \<lparr>body = \<lparr>classList = {}\<rparr>,
      navbar = Some \<lparr>classList = {''navbar''}\<rparr>,
      hamburger = Some \<lparr>classList = {''hamburger''}, aria_expanded = Some ''false''\<rparr>,
      mobileMenu = Some \<lparr>classList = {''mobile-menu''}\<rparr>,
      darkModeToggle =
        Some \<lparr>classList = {''dark-mode-toggle''},
              icon = Some \<lparr>classList = {''fas'', ''fa-moon''}\<rparr>\<rparr>,
      contactForm = Some (),
      yearElement = Some \<lparr>classList = {}, textContent = []\<rparr>,
      typingText = Some \<lparr>classList = {''typing-text''}, textContent = ''Hi!''\<rparr>,
      fadeElements = [pending_fade, pending_fade, pending_fade],
      inputs = [''name'' \<mapsto> blank_input, ''email'' \<mapsto> blank_input,
                ''message'' \<mapsto> blank_input],
      formSuccess = Some \<lparr>classList = {}, textContent = [], display = ''none''\<rparr>,
      savedMode = None,
      systemPrefersDark = False,
      scrollY = 0,
      scrollTo = None,
      currentYear = 2024,
      clock = 0,
      timers = [],
      next_timer_id = 1,
      typing = None,
      bound = \<lparr>on_hamburger_click = False, on_toggle_click = False,
                 on_anchor_click = False, on_submit = False, on_scroll = False\<rparr>\<rparr>"

section \<open>The contact form\<close>

subsection \<open>What one submit does to the controls\<close>

lemma capitalize_fields:
  "capitalize ''name'' = ''Name''"
  "capitalize ''email'' = ''Email''"
  "capitalize ''message'' = ''Message''"
  by code_simp+

text \<open>
  The verdict on one trimmed value, and what the handler does to one control: the
  error boxes are emptied first, then each control is judged in turn.
\<close>

definition field_error :: "string \<Rightarrow> string \<Rightarrow> string option" where
  "field_error field v =
     (if v = [] then Some (capitalize field @ '' is required'')
      else if field = ''email'' \<and> \<not> validateEmail v then Some ''Please enter a valid email''
      else None)"

definition cleared :: "input_el \<Rightarrow> input_el" where
  "cleared input =
     input\<lparr>nextElementSibling :=
       map_option (\<lambda>el. if cl_contains ''error-message'' el then el\<lparr>textContent := []\<rparr> else el)
         (nextElementSibling input)\<rparr>"

definition judged :: "string \<Rightarrow> input_el \<Rightarrow> input_el" where
  "judged field input =
     (case field_error field (trim (val input)) of
        None \<Rightarrow> input
      | Some m \<Rightarrow>
          cl_add ''error''
            (input\<lparr>nextElementSibling :=
               map_option (\<lambda>el. el\<lparr>textContent := m\<rparr>) (nextElementSibling input)\<rparr>))"

lemma validate_field_judged:
  assumes "inputs q field = Some input" and "nextElementSibling input \<noteq> None"
  shows "validate_field field (q, b) =
           Inr (q\<lparr>inputs := (inputs q)(field \<mapsto> judged field input)\<rparr>,
                b \<and> field_error field (trim (val input)) = None)"
proof -
  from assms obtain el where el: "nextElementSibling input = Some el" by auto
  have same: "q\<lparr>inputs := (inputs q)(field \<mapsto> input)\<rparr> = q"
    using assms(1) by (simp add: fun_upd_idem)
  show ?thesis
    using assms(1) el same
    by (auto simp: validate_field_def showError_def and_then_def judged_def field_error_def
        Let_def)
qed

definition after_validation :: "page \<Rightarrow> page" where
  "after_validation p =
     p\<lparr>inputs := (\<lambda>k. if k \<in> {''name'', ''email'', ''message''}
                        then map_option (judged k \<circ> cleared) (inputs p k)
                        else map_option cleared (inputs p k))\<rparr>"

definition all_valid :: "page \<Rightarrow> bool" where
  "all_valid p =
     (field_error ''name'' (entered p ''name'') = None
      \<and> field_error ''email'' (entered p ''email'') = None
      \<and> field_error ''message'' (entered p ''message'') = None)"

lemma has_error_boxD:
  "has_error_box p f \<Longrightarrow>
     \<exists>input el. inputs p f = Some input \<and> nextElementSibling input = Some el
        \<and> cl_contains ''error-message'' el"
  by (auto simp: has_error_box_def split: option.splits)

lemma validation_result:
  assumes "has_error_box p ''name''" "has_error_box p ''email''" "has_error_box p ''message''"
  shows "forEach validate_field [''name'', ''email'', ''message''] (reset_error_messages p, True)
           = Inr (after_validation p, all_valid p)"
proof -
  from assms(1) obtain i1 e1 where 1: "inputs p ''name'' = Some i1" "nextElementSibling i1 = Some e1"
    by (auto dest: has_error_boxD)
  from assms(2) obtain i2 e2 where 2: "inputs p ''email'' = Some i2" "nextElementSibling i2 = Some e2"
    by (auto dest: has_error_boxD)
  from assms(3) obtain i3 e3 where 3: "inputs p ''message'' = Some i3" "nextElementSibling i3 = Some e3"
    by (auto dest: has_error_boxD)
  let ?q0 = "reset_error_messages p"
  let ?q1 = "?q0\<lparr>inputs := (inputs ?q0)(''name'' \<mapsto> judged ''name'' (cleared i1))\<rparr>"
  let ?q2 = "?q1\<lparr>inputs := (inputs ?q1)(''email'' \<mapsto> judged ''email'' (cleared i2))\<rparr>"
  let ?q3 = "?q2\<lparr>inputs := (inputs ?q2)(''message'' \<mapsto> judged ''message'' (cleared i3))\<rparr>"
  have r: "inputs ?q0 = (\<lambda>k. map_option cleared (inputs p k))"
    by (simp add: reset_error_messages_def cleared_def [abs_def])
  have s1: "validate_field ''name'' (?q0, True)
              = Inr (?q1, field_error ''name'' (entered p ''name'') = None)"
    using validate_field_judged [of ?q0 "''name''" "cleared i1" True] 1
    by (simp add: r cleared_def entered_def)
  have s2: "validate_field ''email'' (?q1, b)
              = Inr (?q2, b \<and> field_error ''email'' (entered p ''email'') = None)" for b
    using validate_field_judged [of ?q1 "''email''" "cleared i2" b] 2
    by (simp add: r cleared_def entered_def)
  have s3: "validate_field ''message'' (?q2, b)
              = Inr (?q3, b \<and> field_error ''message'' (entered p ''message'') = None)" for b
    using validate_field_judged [of ?q2 "''message''" "cleared i3" b] 3
    by (simp add: r cleared_def entered_def)
  have ins: "(\<lambda>k. map_option cleared (inputs p k))
                (''name'' \<mapsto> judged ''name'' (cleared i1),
                 ''email'' \<mapsto> judged ''email'' (cleared i2),
                 ''message'' \<mapsto> judged ''message'' (cleared i3))
              = (\<lambda>k. if k \<in> {''name'', ''email'', ''message''}
                      then map_option (judged k \<circ> cleared) (inputs p k)
                      else map_option cleared (inputs p k))"
    using 1 2 3 by (auto simp: fun_eq_iff)
  have q0: "?q0 = p\<lparr>inputs := (\<lambda>k. map_option cleared (inputs p k))\<rparr>"
    by (simp add: reset_error_messages_def cleared_def [abs_def])
  have q3: "?q3 = after_validation p"
    unfolding q0 after_validation_def using ins by simp
  show ?thesis
    by (simp only: forEach.simps and_then_def s1 s2 s3 sum.case q3 all_valid_def simp_thms conj_assoc)
qed


lemma submit_result:
  assumes "form_ready p"
  shows "handleFormSubmit p =
           (if all_valid p then and_then (showSuccessMessage (after_validation p)) form_reset
            else Inr (after_validation p))"
  using assms
  by (simp add: handleFormSubmit_def form_ready_def validation_result and_then_def
      del: forEach.simps)

lemma after_validation_obs:
  assumes "has_error_box p f" "f \<in> {''name'', ''email'', ''message''}"
  shows "error_message (after_validation p) f =
           Some (case field_error f (entered p f) of None \<Rightarrow> [] | Some m \<Rightarrow> m)"
    and "marked_invalid (after_validation p) f =
           (field_error f (entered p f) \<noteq> None \<or> marked_invalid p f)"
    and "field_value (after_validation p) f = field_value p f"
proof -
  from assms(1) obtain input el where
    "inputs p f = Some input" "nextElementSibling input = Some el"
    "cl_contains ''error-message'' el"
    by (auto dest: has_error_boxD)
  with assms(2) show
    "error_message (after_validation p) f =
       Some (case field_error f (entered p f) of None \<Rightarrow> [] | Some m \<Rightarrow> m)"
    "marked_invalid (after_validation p) f =
       (field_error f (entered p f) \<noteq> None \<or> marked_invalid p f)"
    "field_value (after_validation p) f = field_value p f"
    by (auto simp: after_validation_def error_message_def marked_invalid_def field_value_def
        judged_def cleared_def entered_def cl_add_def cl_contains_def split: option.splits)
qed


text \<open>The sample page with the three controls filled in by the user.\<close>

definition filled :: "string \<Rightarrow> string \<Rightarrow> string \<Rightarrow> page \<Rightarrow> page" where
  "filled n e m p = user_types ''message'' m (user_types ''email'' e (user_types ''name'' n p))"

lemma form_ready_filled: "form_ready (filled n e m sample_page)"
  by (simp add: form_ready_def has_error_box_def filled_def user_types_def sample_page_def
      blank_input_def cl_contains_def)

lemma entered_filled:
  "entered (filled n e m sample_page) ''name'' = trim n"
  "entered (filled n e m sample_page) ''email'' = trim e"
  "entered (filled n e m sample_page) ''message'' = trim m"
  by (simp_all add: entered_def filled_def user_types_def sample_page_def blank_input_def)

subsection \<open>The email rule\<close>

text \<open>
  C4. \<^verbatim>\<open>validateEmail\<close> accepts \<^verbatim>\<open>a@b.co\<close> and rejects \<^verbatim>\<open>a@b\<close>,
  \<^verbatim>\<open>a b@c.com\<close> and \<^verbatim>\<open>abc.com\<close>. On a page with the form's markup in place, a
  submit whose email is empty after trimming leaves \<^verbatim>\<open>Email is required\<close> in the
  email's error box, not the format message: the handler tests emptiness first.
\<close>

theorem email_validation:
  "validateEmail ''a@b.co'' \<and> \<not> validateEmail ''a@b'' \<and> \<not> validateEmail ''a b@c.com''
   \<and> \<not> validateEmail ''abc.com''
   \<and> (form_ready p \<and> entered p ''email'' = [] \<longrightarrow>
        error_message (page_after (handleFormSubmit p)) ''email'' = Some ''Email is required'')"
proof -
  have accept: "validateEmail ''a@b.co''"
    by (simp add: validateEmail_def email_re_def is_space_def)
  have reject: "\<not> validateEmail ''a@b''" "\<not> validateEmail ''a b@c.com''"
    "\<not> validateEmail ''abc.com''"
    by (simp_all add: validateEmail_def email_re_def is_space_def)
  have "error_message (page_after (handleFormSubmit p)) ''email'' = Some ''Email is required''"
    if ready: "form_ready p" and empty: "entered p ''email'' = []"
  proof -
    from empty have "\<not> all_valid p"
      by (simp add: all_valid_def field_error_def)
    with ready have "page_after (handleFormSubmit p) = after_validation p"
      by (simp add: submit_result page_after_def)
    moreover from ready have "has_error_box p ''email''"
      by (simp add: form_ready_def)
    ultimately show ?thesis
      using empty by (simp add: after_validation_obs field_error_def capitalize_fields)
  qed
  with accept reject show ?thesis by blast
qed

theorem email_validation_witness:
  "form_ready (filled ''Ann'' ''  '' ''Hello'' sample_page)
   \<and> entered (filled ''Ann'' ''  '' ''Hello'' sample_page) ''email'' = []
   \<and> error_message (page_after (handleFormSubmit (filled ''Ann'' ''  '' ''Hello'' sample_page)))
        ''email'' = Some ''Email is required''"
  using email_validation [of "filled ''Ann'' ''  '' ''Hello'' sample_page"]
  by (simp add: form_ready_filled entered_filled trim_def is_space_def)

section \<open>Evaluating the sample page\<close>

lemmas eval_page =
  sample_page_def blank_input_def pending_fade_def load_def init_def
  setupEventListeners_def setupScrollAnimations_def setCopyrightYear_def initDarkMode_def
  updateDarkModeIcon_def typeEffect_def setInterval_def and_then_def throw_def page_after_def
  falsy_def cl_add_def cl_remove_def cl_toggle_force_def cl_toggle_def cl_contains_def threw_def
  dispatch_def step_def toggleMobileMenu_def toggleDarkMode_def handleNavbarScroll_def

section \<open>The theme on load\<close>






section \<open>Toggling the theme\<close>

lemma toggleDarkMode_effect:
  assumes "icon_classes p \<noteq> None"
  shows "\<exists>p1. toggleDarkMode p = Inr p1
     \<and> classList (body p1) = (if is_dark p then classList (body p) - {''dark-mode''}
                                else insert ''dark-mode'' (classList (body p)))
     \<and> (is_dark p1 \<longleftrightarrow> \<not> is_dark p)
     \<and> savedMode p1 = Some (if is_dark p1 then ''dark'' else ''light'')
     \<and> (shows_sun p1 \<longleftrightarrow> is_dark p1) \<and> (shows_moon p1 \<longleftrightarrow> \<not> is_dark p1)
     \<and> icon_classes p1 \<noteq> None"
proof -
  from assms obtain t i where ti: "darkModeToggle p = Some t" "icon t = Some i"
    by (auto simp: icon_classes_def split: option.splits)
  show ?thesis
  proof (cases "''dark-mode'' \<in> classList (body p)")
    case True
    with ti show ?thesis
      by (simp add: toggleDarkMode_def updateDarkModeIcon_def icon_classes_def is_dark_def
          shows_sun_def shows_moon_def cl_add_def cl_remove_def cl_toggle_force_def cl_toggle_def
          cl_contains_def and_then_def)
  next
    case False
    with ti show ?thesis
      by (simp add: toggleDarkMode_def updateDarkModeIcon_def icon_classes_def is_dark_def
          shows_sun_def shows_moon_def cl_add_def cl_remove_def cl_toggle_force_def cl_toggle_def
          cl_contains_def and_then_def)
  qed
qed

text \<open>
  C5, as amended. On a page whose toggle has its icon, a toggle flips the body's
  \<^verbatim>\<open>dark-mode\<close> class and stores exactly \<^verbatim>\<open>dark\<close> or \<^verbatim>\<open>light\<close>, the theme it
  leaves. A second toggle gives the body its classes back, and the stored value is then
  the literal of the original theme: it is the original stored value whenever that value
  already matched the theme, as it does after any earlier toggle.
\<close>

theorem toggle_theme:
  assumes "icon_classes p \<noteq> None"
  shows "\<exists>p1 p2. toggleDarkMode p = Inr p1 \<and> toggleDarkMode p1 = Inr p2
     \<and> (is_dark p1 \<longleftrightarrow> \<not> is_dark p)
     \<and> savedMode p1 = Some (if is_dark p1 then ''dark'' else ''light'')
     \<and> body p2 = body p \<and> (is_dark p2 \<longleftrightarrow> is_dark p)
     \<and> savedMode p2 = Some (if is_dark p2 then ''dark'' else ''light'')
     \<and> (savedMode p = Some (if is_dark p then ''dark'' else ''light'') \<longrightarrow>
          savedMode p2 = savedMode p)"
proof -
  from toggleDarkMode_effect [OF assms] obtain p1 where p1:
    "toggleDarkMode p = Inr p1"
    "classList (body p1) = (if is_dark p then classList (body p) - {''dark-mode''}
                            else insert ''dark-mode'' (classList (body p)))"
    "is_dark p1 \<longleftrightarrow> \<not> is_dark p"
    "savedMode p1 = Some (if is_dark p1 then ''dark'' else ''light'')"
    "icon_classes p1 \<noteq> None"
    by blast
  from toggleDarkMode_effect [OF p1(5)] obtain p2 where p2:
    "toggleDarkMode p1 = Inr p2"
    "classList (body p2) = (if is_dark p1 then classList (body p1) - {''dark-mode''}
                            else insert ''dark-mode'' (classList (body p1)))"
    "is_dark p2 \<longleftrightarrow> \<not> is_dark p1"
    "savedMode p2 = Some (if is_dark p2 then ''dark'' else ''light'')"
    by blast
  have "classList (body p2) = classList (body p)"
    using p1(2,3) p2(2) by (auto simp: is_dark_def cl_contains_def)
  then have body: "body p2 = body p" by simp
  then have dark2: "is_dark p2 \<longleftrightarrow> is_dark p" by (simp add: is_dark_def)
  have "savedMode p = Some (if is_dark p then ''dark'' else ''light'') \<longrightarrow>
          savedMode p2 = savedMode p"
    using p2(4) dark2 by simp
  with p1(1,3,4) p2(1,4) body dark2 show ?thesis by blast
qed

theorem toggle_theme_witness:
  "icon_classes (load sample_page) \<noteq> None
   \<and> \<not> is_dark (load sample_page)
   \<and> is_dark (step (load sample_page) ToggleClick)
   \<and> savedMode (step (load sample_page) ToggleClick) = Some ''dark''
   \<and> body (step (step (load sample_page) ToggleClick) ToggleClick) = body (load sample_page)
   \<and> savedMode (step (step (load sample_page) ToggleClick) ToggleClick) = Some ''light''"
proof -
  have on: "on_toggle_click (bound (load sample_page))"
    "on_toggle_click (bound (step (load sample_page) ToggleClick))"
    by (simp_all add: eval_page)
  have icon: "icon_classes (load sample_page) \<noteq> None"
    and light: "\<not> is_dark (load sample_page)"
    by (simp_all add: eval_page icon_classes_def is_dark_def)
  from toggle_theme [OF icon] light on show ?thesis
    by (auto simp: icon step_def dispatch_def page_after_def)
qed

text \<open>
  On a first visit nothing is stored. Two clicks on the toggle bring the light theme back
  and leave \<^verbatim>\<open>light\<close> in the store, which was empty before.
\<close>

theorem toggle_theme_counterexample:
  "savedMode (step (step (load sample_page) ToggleClick) ToggleClick)
     \<noteq> savedMode (load sample_page)"
  by (simp add: eval_page)

section \<open>The mobile menu\<close>

text \<open>\<open>n\<close> calls of \<^verbatim>\<open>toggleMobileMenu\<close> in a row.\<close>

fun toggles :: "nat \<Rightarrow> page \<Rightarrow> page result" where
  "toggles 0 p = Inr p"
| "toggles (Suc n) p = and_then (toggleMobileMenu p) (toggles n)"

definition flip :: "string \<Rightarrow> string set \<Rightarrow> string set" where
  "flip c S = (if c \<in> S then S - {c} else insert c S)"

lemma flip_flip: "flip c (flip c S) = S"
  by (auto simp: flip_def)

lemma funpow_flip: "(flip c ^^ n) S = (if even n then S else flip c S)"
  by (induction n) (simp_all add: flip_flip)

lemma toggleMobileMenu_effect:
  assumes "mobileMenu p = Some m" and "hamburger p = Some h"
  shows "toggleMobileMenu p =
           Inr (p\<lparr>mobileMenu := Some (m\<lparr>classList := flip ''active'' (classList m)\<rparr>),
                  hamburger := Some (h\<lparr>classList := flip ''active'' (classList h),
                     aria_expanded := Some (string_of_bool (aria_expanded h \<noteq> Some ''true''))\<rparr>)\<rparr>)"
  using assms
  by (simp add: toggleMobileMenu_def cl_toggle_def cl_add_def cl_remove_def flip_def Let_def)

lemma toggles_effect:
  assumes "mobileMenu p = Some m" and "hamburger p = Some h"
  shows "toggles n p =
           Inr (p\<lparr>mobileMenu := Some (m\<lparr>classList := (flip ''active'' ^^ n) (classList m)\<rparr>),
                  hamburger := Some (h\<lparr>classList := (flip ''active'' ^^ n) (classList h),
                     aria_expanded :=
                       (if n = 0 then aria_expanded h
                        else Some (string_of_bool ((aria_expanded h = Some ''true'') \<noteq> odd n)))\<rparr>)\<rparr>)"
  using assms
proof (induction n arbitrary: p m h)
  case 0
  then show ?case by simp
next
  case (Suc n)
  let ?m = "m\<lparr>classList := flip ''active'' (classList m)\<rparr>"
  let ?h = "h\<lparr>classList := flip ''active'' (classList h),
              aria_expanded := Some (string_of_bool (aria_expanded h \<noteq> Some ''true''))\<rparr>"
  let ?p = "p\<lparr>mobileMenu := Some ?m, hamburger := Some ?h\<rparr>"
  have step: "toggleMobileMenu p = Inr ?p"
    using Suc.prems by (rule toggleMobileMenu_effect)
  have "toggles (Suc n) p = toggles n ?p"
    by (simp add: step and_then_def)
  also have "\<dots> = Inr (?p\<lparr>mobileMenu := Some (?m\<lparr>classList := (flip ''active'' ^^ n) (classList ?m)\<rparr>),
                  hamburger := Some (?h\<lparr>classList := (flip ''active'' ^^ n) (classList ?h),
                     aria_expanded :=
                       (if n = 0 then aria_expanded ?h
                        else Some (string_of_bool ((aria_expanded ?h = Some ''true'') \<noteq> odd n)))\<rparr>)\<rparr>)"
    by (rule Suc.IH) simp_all
  finally show ?case
    by (simp add: funpow_swap1 string_of_bool_def)
qed

text \<open>
  C6. On a page with the menu panel and the hamburger, both closed (the panel without
  \<^verbatim>\<open>active\<close>, \<^verbatim>\<open>aria-expanded\<close> not \<^verbatim>\<open>true\<close>), \<open>n\<close> toggles complete, and
  afterwards the panel is open exactly when \<open>n\<close> is odd and the hamburger is marked
  expanded exactly when \<open>n\<close> is odd: after every toggle the two agree. After an even
  number the panel and the hamburger's classes are what they were.
\<close>

theorem menu_toggles:
  assumes "mobileMenu p \<noteq> None" and "hamburger p \<noteq> None"
    and "\<not> menu_open p" and "\<not> expanded p"
  shows "\<exists>p'. toggles n p = Inr p'
     \<and> (menu_open p' \<longleftrightarrow> odd n) \<and> (expanded p' \<longleftrightarrow> odd n)
     \<and> (even n \<longrightarrow> mobileMenu p' = mobileMenu p
          \<and> map_option classList (hamburger p') = map_option classList (hamburger p))"
proof -
  from assms obtain m h where mh: "mobileMenu p = Some m" "hamburger p = Some h" by auto
  from assms(3,4) mh have closed: "''active'' \<notin> classList m" "aria_expanded h \<noteq> Some ''true''"
    by (simp_all add: menu_open_def expanded_def cl_contains_def)
  show ?thesis
    unfolding toggles_effect [OF mh] using mh closed
    by (auto simp: menu_open_def expanded_def cl_contains_def funpow_flip flip_def
        string_of_bool_def)
qed

theorem menu_toggles_witness:
  "mobileMenu (load sample_page) \<noteq> None \<and> hamburger (load sample_page) \<noteq> None
   \<and> \<not> menu_open (load sample_page) \<and> \<not> expanded (load sample_page)
   \<and> (\<exists>p'. toggles 3 (load sample_page) = Inr p' \<and> menu_open p' \<and> expanded p')
   \<and> (\<exists>p'. toggles 4 (load sample_page) = Inr p' \<and> \<not> menu_open p' \<and> \<not> expanded p'
         \<and> mobileMenu p' = mobileMenu (load sample_page))"
proof -
  have pre: "mobileMenu (load sample_page) \<noteq> None" "hamburger (load sample_page) \<noteq> None"
    "\<not> menu_open (load sample_page)" "\<not> expanded (load sample_page)"
    by (simp_all add: eval_page menu_open_def expanded_def)
  from menu_toggles [OF pre, of 3] menu_toggles [OF pre, of 4] pre show ?thesis
    by auto
qed

section \<open>Missing elements\<close>

text \<open>
  C1 does not hold of the script. On the sample page without its navigation bar the
  scroll handler throws; without its menu panel a click on the hamburger throws; without
  its theme toggle and with \<^verbatim>\<open>dark\<close> stored, \<^verbatim>\<open>init\<close> throws in
  \<^verbatim>\<open>initDarkMode\<close>, so the typing effect that comes after it never starts and the
  text stays as the markup has it.
\<close>

theorem missing_elements_throw:
  "threw (dispatch (WindowScroll 0) (load (sample_page\<lparr>navbar := None\<rparr>)))
   \<and> threw (dispatch HamburgerClick (load (sample_page\<lparr>mobileMenu := None\<rparr>)))
   \<and> threw (init (sample_page\<lparr>darkModeToggle := None, savedMode := Some ''dark''\<rparr>))
   \<and> typing (load (sample_page\<lparr>darkModeToggle := None, savedMode := Some ''dark''\<rparr>)) = None
   \<and> typed_text (load (sample_page\<lparr>darkModeToggle := None, savedMode := Some ''dark''\<rparr>))
        = Some ''Hi!''"
  by (simp add: eval_page typed_text_def)

section \<open>Timers that hide the success message\<close>

declare run_until.simps [simp del]

lemma earliest_None: "earliest ts = None \<longleftrightarrow> ts = []"
  by (cases ts) (auto split: option.splits)

lemma earliest_least: "earliest ts = Some i \<Longrightarrow> x \<in> set ts \<Longrightarrow> due (ts ! i) \<le> due x"
proof (induction ts arbitrary: i)
  case Nil
  then show ?case by simp
next
  case (Cons y ys)
  show ?case
  proof (cases "earliest ys")
    case None
    with Cons.prems show ?thesis by (auto simp: earliest_None)
  next
    case (Some j)
    with Cons.prems Cons.IH [OF Some] show ?thesis
      by (cases "due (ys ! j) < due y") (auto simp: not_less intro: order_trans)
  qed
qed

lemma next_timer_None: "next_timer t p = None \<Longrightarrow> x \<in> set (timers p) \<Longrightarrow> t < due x"
  by (auto simp: next_timer_def earliest_None split: option.splits if_splits
      dest: earliest_least)

text \<open>The timers left by one firing: the old ones, and the interval set again.\<close>

definition fired :: "nat \<Rightarrow> page \<Rightarrow> page" where
  "fired i p =
     p\<lparr>clock := max (clock p) (due (timers p ! i)),
       timers := (case every (timers p ! i) of
                    None \<Rightarrow> take i (timers p) @ drop (Suc i) (timers p)
                  | Some ms \<Rightarrow> (timers p)[i := (timers p ! i)\<lparr>due := due (timers p ! i) + max 1 ms\<rparr>])\<rparr>"

lemma fire_fired: "fire i p = run_callback (action (timers p ! i)) (fired i p)"
  by (simp add: fire_def fired_def Let_def)

lemma fired_timers:
  assumes "x \<in> set (timers (fired i p))"
  shows "x \<in> set (timers p) \<or> (\<exists>d. x = (timers p ! i)\<lparr>due := d\<rparr> \<and> i < length (timers p))"
proof (cases "every (timers p ! i)")
  case None
  with assms have "x \<in> set (take i (timers p)) \<or> x \<in> set (drop (Suc i) (timers p))"
    by (simp add: fired_def)
  then show ?thesis by (auto dest: in_set_takeD in_set_dropD)
next
  case (Some ms)
  with assms have upd: "x \<in> set ((timers p)[i := (timers p ! i)\<lparr>due := due (timers p ! i) + max 1 ms\<rparr>])"
    by (simp add: fired_def)
  show ?thesis
  proof (cases "i < length (timers p)")
    case True
    with upd show ?thesis
      by (auto dest!: set_update_subset_insert [THEN subsetD])
  next
    case False
    with upd show ?thesis by (simp add: list_update_beyond)
  qed
qed

lemma fired_keeps:
  assumes "x \<in> set (timers p)" and "i < length (timers p)" and "action x \<noteq> action (timers p ! i)"
  shows "x \<in> set (timers (fired i p))"
proof -
  from assms(1) obtain j where j: "j < length (timers p)" "timers p ! j = x"
    by (auto simp: in_set_conv_nth)
  with assms(3) have ne: "j \<noteq> i" by auto
  show ?thesis
  proof (cases "every (timers p ! i)")
    case None
    have "timers p = take i (timers p) @ timers p ! i # drop (Suc i) (timers p)"
      using assms(2) by (rule id_take_nth_drop)
    then have "set (timers p) = set (take i (timers p)) \<union> {timers p ! i} \<union> set (drop (Suc i) (timers p))"
      by (metis list.simps(15) set_append Un_assoc insert_is_Un)
    with assms(1,3) None show ?thesis by (auto simp: fired_def)
  next
    case (Some ms)
    from j ne have "(timers p)[i := (timers p ! i)\<lparr>due := due (timers p ! i) + max 1 ms\<rparr>] ! j = x"
      by simp
    with j Some show ?thesis
      by (auto simp: fired_def in_set_conv_nth intro!: exI [of _ j])
  qed
qed

text \<open>
  The identifier the typing effect keeps belongs to its own interval and to no other
  timer, and is older than the next identifier to be given out.
\<close>

definition timers_ok :: "page \<Rightarrow> bool" where
  "timers_ok p =
     (case typing p of
        None \<Rightarrow> True
      | Some ts \<Rightarrow>
          typingInterval ts < next_timer_id p
          \<and> list_all (\<lambda>x. timer_id x \<noteq> typingInterval ts \<or> action x = TypingTick) (timers p))"

lemma run_callback_frame:
  "next_timer_id (run_callback cb p) = next_timer_id p"
  "map_option typingInterval (typing (run_callback cb p)) = map_option typingInterval (typing p)"
  "set (timers (run_callback cb p)) \<subseteq> set (timers p)"
  "inputs (run_callback cb p) = inputs p"
  "contactForm (run_callback cb p) = contactForm p"
  by (cases cb; auto simp: run_callback_def typing_tick_def hide_success_def clearInterval_def
      split: option.splits)+

lemma timers_ok_fire:
  assumes "timers_ok p"
  shows "timers_ok (fire i p)"
proof (cases "typing p")
  case None
  then have "typing (fire i p) = None"
    by (cases "action (timers p ! i)")
       (simp_all add: fire_fired fired_def run_callback_def typing_tick_def hide_success_def)
  then show ?thesis by (simp add: timers_ok_def)
next
  case (Some ts)
  from run_callback_frame(2) [of "action (timers p ! i)" "fired i p"] Some
  obtain ts' where ts': "typing (fire i p) = Some ts'" "typingInterval ts' = typingInterval ts"
    by (auto simp: fire_fired fired_def)
  have "timer_id x \<noteq> typingInterval ts \<or> action x = TypingTick"
    if "x \<in> set (timers (fire i p))" for x
  proof -
    from that have "x \<in> set (timers (fired i p))"
      using run_callback_frame(3) by (auto simp: fire_fired)
    then have "x \<in> set (timers p) \<or> (\<exists>d. x = (timers p ! i)\<lparr>due := d\<rparr> \<and> i < length (timers p))"
      by (rule fired_timers)
    with assms Some show ?thesis
      by (auto simp: timers_ok_def list_all_iff)
  qed
  with assms Some ts' show ?thesis
    by (simp add: timers_ok_def list_all_iff fire_fired run_callback_frame(1)) (simp add: fired_def)
qed

lemma hide_kept_by_tick:
  assumes "timers_ok p" and "x \<in> set (timers p)" and "action x = HideSuccess"
    and "i < length (timers p)" and "action (timers p ! i) = TypingTick"
  shows "x \<in> set (timers (fire i p))"
proof -
  have x: "x \<in> set (timers (fired i p))"
    using assms by (intro fired_keeps) simp_all
  have same: "typing (fired i p) = typing p" by (simp add: fired_def)
  show ?thesis
  proof (cases "typing p")
    case None
    with x same assms(5) show ?thesis
      by (simp add: fire_fired run_callback_def typing_tick_def)
  next
    case (Some ts)
    with assms(1,2,3) have "timer_id x \<noteq> typingInterval ts"
      by (auto simp: timers_ok_def list_all_iff)
    with x same Some assms(5) show ?thesis
      by (simp add: fire_fired run_callback_def typing_tick_def clearInterval_def)
  qed
qed

lemma formSuccess_fire:
  "formSuccess (fire i p) =
     (if action (timers p ! i) = HideSuccess
      then map_option (\<lambda>el. el\<lparr>display := ''none''\<rparr>) (formSuccess p) else formSuccess p)"
  by (cases "action (timers p ! i)")
     (auto simp: fire_fired fired_def run_callback_def typing_tick_def hide_success_def
        clearInterval_def split: option.splits)

lemma hidden_stays_hidden:
  "success_display p = Some ''none'' \<Longrightarrow> success_display (run_until t p) = Some ''none''"
proof (induction t p rule: run_until.induct)
  case (1 t p)
  show ?case
  proof (cases "next_timer t p")
    case None
    with "1.prems" show ?thesis by (simp add: run_until.simps [of t p] success_display_def)
  next
    case (Some i)
    from "1.prems" have "success_display (fire i p) = Some ''none''"
      by (auto simp: success_display_def formSuccess_fire)
    with "1.IH" [OF Some] Some show ?thesis by (simp add: run_until.simps [of t p])
  qed
qed

lemma due_hide_hides:
  assumes "timers_ok p" and "x \<in> set (timers p)" and "action x = HideSuccess" and "due x \<le> t"
    and "formSuccess p \<noteq> None"
  shows "success_display (run_until t p) = Some ''none''"
  using assms
proof (induction t p rule: run_until.induct)
  case (1 t p)
  show ?case
  proof (cases "next_timer t p")
    case None
    with "1.prems"(2,4) next_timer_None [OF None, of x] show ?thesis by simp
  next
    case (Some i)
    then have i: "i < length (timers p)" by (auto dest: next_timer_SomeD)
    show ?thesis
    proof (cases "action (timers p ! i)")
      case HideSuccess
      with "1.prems"(5) have "success_display (fire i p) = Some ''none''"
        by (auto simp: success_display_def formSuccess_fire)
      then have "success_display (run_until t (fire i p)) = Some ''none''"
        by (rule hidden_stays_hidden)
      with Some show ?thesis by (simp add: run_until.simps [of t p])
    next
      case TypingTick
      have "success_display (run_until t (fire i p)) = Some ''none''"
      proof (rule "1.IH" [OF Some])
        show "timers_ok (fire i p)" using "1.prems"(1) by (rule timers_ok_fire)
        show "x \<in> set (timers (fire i p))"
          using "1.prems"(1,2,3) i TypingTick by (rule hide_kept_by_tick)
        show "action x = HideSuccess" by fact
        show "due x \<le> t" by fact
        show "formSuccess (fire i p) \<noteq> None"
          using "1.prems"(5) TypingTick by (simp add: formSuccess_fire)
      qed
      with Some show ?thesis by (simp add: run_until.simps [of t p])
    qed
  qed
qed


section \<open>Submitting the form\<close>

lemma all_valid_iff:
  "all_valid p \<longleftrightarrow>
     entered p ''name'' \<noteq> [] \<and> entered p ''email'' \<noteq> []
     \<and> validateEmail (entered p ''email'') \<and> entered p ''message'' \<noteq> []"
  by (auto simp: all_valid_def field_error_def)

lemma timers_after_validation [simp]:
  "timers (after_validation p) = timers p"
  "next_timer_id (after_validation p) = next_timer_id p"
  "clock (after_validation p) = clock p"
  "typing (after_validation p) = typing p"
  "formSuccess (after_validation p) = formSuccess p"
  "contactForm (after_validation p) = contactForm p"
  "bound (after_validation p) = bound p"
  by (simp_all add: after_validation_def)


text \<open>The page a valid submit leaves: the message shown, its timeout set, the form reset.\<close>

definition hide_timer :: "page \<Rightarrow> timer" where
  "hide_timer p =
     \<lparr>timer_id = next_timer_id p, due = clock p + 5000, action = HideSuccess, every = None\<rparr>"

definition submitted :: "page \<Rightarrow> page" where
  "submitted p =
     (after_validation p)
       \<lparr>formSuccess :=
          map_option (\<lambda>el. el\<lparr>textContent := success_text, display := ''block''\<rparr>)
            (formSuccess p),
        timers := timers p @ [hide_timer p],
        next_timer_id := Suc (next_timer_id p),
        inputs := (\<lambda>k. map_option (\<lambda>input. input\<lparr>val := []\<rparr>)
                          (inputs (after_validation p) k))\<rparr>"

lemma valid_submit_result:
  assumes "form_ready p" and "all_valid p"
  shows "handleFormSubmit p = Inr (submitted p)"
proof -
  from assms(1) obtain el where el: "formSuccess p = Some el" and form: "contactForm p = Some ()"
    by (auto simp: form_ready_def)
  with assms show ?thesis
    by (simp add: submit_result showSuccessMessage_def form_reset_def setTimeout_def
        and_then_def submitted_def hide_timer_def)
qed

lemma submitted_frame [simp]:
  "timers (submitted p) = timers p @ [hide_timer p]"
  "next_timer_id (submitted p) = Suc (next_timer_id p)"
  "typing (submitted p) = typing p"
  "clock (submitted p) = clock p"
  "bound (submitted p) = bound p"
  "contactForm (submitted p) = contactForm p"
  "typingText (submitted p) = typingText p"
  "fadeElements (submitted p) = fadeElements p"
  by (simp_all add: submitted_def after_validation_def)

lemma submitted_success:
  "formSuccess p \<noteq> None \<Longrightarrow> success_shown (submitted p) = Some success_text"
  "formSuccess p \<noteq> None \<Longrightarrow> success_display (submitted p) = Some ''block''"
  "formSuccess (submitted p) = None \<longleftrightarrow> formSuccess p = None"
  by (auto simp: submitted_def success_shown_def success_display_def)

definition boxed :: "input_el \<Rightarrow> bool" where
  "boxed input =
     (case nextElementSibling input of
        None \<Rightarrow> False
      | Some el \<Rightarrow> cl_contains ''error-message'' el)"

lemma has_error_box_boxed:
  "has_error_box p f = (case inputs p f of None \<Rightarrow> False | Some input \<Rightarrow> boxed input)"
  by (cases "inputs p f") (simp_all add: has_error_box_def boxed_def)

lemma boxed_cleared: "boxed (cleared input) = boxed input"
  by (cases "nextElementSibling input") (simp_all add: boxed_def cleared_def cl_contains_def)

lemma boxed_judged: "boxed (judged f input) = boxed input"
proof (cases "field_error f (trim (val input))")
  case None
  then show ?thesis by (simp add: judged_def)
next
  case (Some m)
  then show ?thesis
    by (cases "nextElementSibling input")
       (simp_all add: boxed_def judged_def cl_contains_def cl_add_def)
qed

lemma has_error_box_after_validation:
  "has_error_box (after_validation p) f = has_error_box p f"
proof (cases "inputs p f")
  case None
  then show ?thesis by (simp add: has_error_box_boxed after_validation_def)
next
  case (Some input)
  then show ?thesis
    by (simp add: has_error_box_boxed after_validation_def boxed_cleared boxed_judged)
qed

lemma inputs_submitted:
  "inputs (submitted p) k =
     map_option (\<lambda>input. input\<lparr>val := []\<rparr>) (inputs (after_validation p) k)"
  by (simp add: submitted_def)

lemma submitted_inputs:
  "has_error_box (submitted p) f = has_error_box p f"
  "has_error_box p f \<Longrightarrow> field_value (submitted p) f = Some []"
proof -
  show "has_error_box (submitted p) f = has_error_box p f"
    unfolding has_error_box_after_validation [of p f, symmetric]
    by (cases "inputs (after_validation p) f")
       (simp_all add: has_error_box_boxed boxed_def inputs_submitted)
  assume "has_error_box p f"
  then have "has_error_box (after_validation p) f"
    by (simp add: has_error_box_after_validation)
  then show "field_value (submitted p) f = Some []"
    by (cases "inputs (after_validation p) f")
       (simp_all add: has_error_box_def field_value_def inputs_submitted)
qed

lemma timers_ok_submitted:
  assumes "timers_ok p"
  shows "timers_ok (submitted p)"
proof (cases "typing p")
  case None
  then show ?thesis by (simp add: timers_ok_def)
next
  case (Some ts)
  with assms have "typingInterval ts < next_timer_id p"
    and "\<forall>x\<in>set (timers p). timer_id x \<noteq> typingInterval ts \<or> action x = TypingTick"
    by (simp_all add: timers_ok_def list_all_iff)
  with Some show ?thesis
    by (simp add: timers_ok_def list_all_iff hide_timer_def)
qed


text \<open>A visitor has loaded the sample page and filled in the form.\<close>

definition visitor :: page where
  "visitor = filled ''Ann'' ''a@b.co'' ''Hello'' (load sample_page)"

lemma visitor_ready:
  "form_ready visitor" "timers_ok visitor"
  "entered visitor ''name'' = ''Ann''" "entered visitor ''email'' = ''a@b.co''"
  "entered visitor ''message'' = ''Hello''"
  "on_submit (bound visitor)" "clock visitor = 0"
  by (simp_all add: visitor_def filled_def user_types_def eval_page form_ready_def
      has_error_box_def timers_ok_def entered_def trim_def is_space_def)


subsection \<open>What the passing of time leaves alone\<close>

lemma fire_frame:
  "\<exists>c ts tt ty fs. fire i p = p\<lparr>clock := c, timers := ts, typingText := tt, typing := ty, formSuccess := fs\<rparr>"
proof -
  have "\<exists>ts tt ty fs. run_callback cb q = q\<lparr>timers := ts, typingText := tt, typing := ty, formSuccess := fs\<rparr>"
    for cb q
  proof (cases cb)
    case TypingTick
    show ?thesis
    proof (cases "typing q")
      case None
      have "q = q\<lparr>timers := timers q, typingText := typingText q, typing := typing q, formSuccess := formSuccess q\<rparr>"
        by simp
      with None TypingTick show ?thesis
        unfolding run_callback_def typing_tick_def by (metis callback.simps(3) option.simps(4))
    next
      case (Some ts)
      show ?thesis
      proof (cases "idx ts < length (full_text ts)")
        case True
        let ?tt = "map_option (\<lambda>el. el\<lparr>textContent := textContent el @ [full_text ts ! idx ts]\<rparr>) (typingText q)"
        have "run_callback cb q = q\<lparr>timers := timers q, typingText := ?tt, typing := Some (ts\<lparr>idx := Suc (idx ts)\<rparr>), formSuccess := formSuccess q\<rparr>"
          using TypingTick Some True by (simp add: run_callback_def typing_tick_def)
        then show ?thesis by blast
      next
        case False
        have "run_callback cb q = q\<lparr>timers := filter (\<lambda>t. timer_id t \<noteq> typingInterval ts) (timers q), typingText := typingText q, typing := typing q, formSuccess := formSuccess q\<rparr>"
          using TypingTick Some False by (simp add: run_callback_def typing_tick_def clearInterval_def)
        then show ?thesis by blast
      qed
    qed
  next
    case HideSuccess
    have "run_callback cb q = q\<lparr>timers := timers q, typingText := typingText q, typing := typing q,
            formSuccess := map_option (\<lambda>el. el\<lparr>display := ''none''\<rparr>) (formSuccess q)\<rparr>"
      using HideSuccess by (simp add: run_callback_def hide_success_def)
    then show ?thesis by blast
  qed
  from this [of "action (timers p ! i)" "fired i p"] obtain ts tt ty fs where
    "fire i p = (fired i p)\<lparr>timers := ts, typingText := tt, typing := ty, formSuccess := fs\<rparr>"
    by (auto simp: fire_fired)
  then have "fire i p = p\<lparr>clock := max (clock p) (due (timers p ! i)), timers := ts, typingText := tt, typing := ty, formSuccess := fs\<rparr>"
    by (simp add: fired_def)
  then show ?thesis by blast
qed

lemma run_until_frame:
  "\<exists>c ts tt ty fs. run_until t p = p\<lparr>clock := c, timers := ts, typingText := tt, typing := ty, formSuccess := fs\<rparr>"
proof (induction t p rule: run_until.induct)
  case (1 t p)
  show ?case
  proof (cases "next_timer t p")
    case None
    have "run_until t p = p\<lparr>clock := max (clock p) t, timers := timers p, typingText := typingText p, typing := typing p, formSuccess := formSuccess p\<rparr>"
      using None by (simp add: run_until.simps [of t p])
    then show ?thesis by blast
  next
    case (Some i)
    from fire_frame [of i p] obtain c ts tt ty fs where
      f: "fire i p = p\<lparr>clock := c, timers := ts, typingText := tt, typing := ty, formSuccess := fs\<rparr>"
      by blast
    from "1.IH" [OF Some] obtain c' ts' tt' ty' fs' where
      "run_until t (fire i p) = (fire i p)\<lparr>clock := c', timers := ts', typingText := tt', typing := ty', formSuccess := fs'\<rparr>"
      by blast
    then have "run_until t p = p\<lparr>clock := c', timers := ts', typingText := tt', typing := ty', formSuccess := fs'\<rparr>"
      using Some by (simp add: run_until.simps [of t p] f)
    then show ?thesis by blast
  qed
qed

lemma run_until_unchanged:
  "inputs (run_until t p) = inputs p"
  "contactForm (run_until t p) = contactForm p"
  "bound (run_until t p) = bound p"
  "fadeElements (run_until t p) = fadeElements p"
  "next_timer_id (run_until t p) = next_timer_id p"
  using run_until_frame [of t p] by auto

lemma clock_fire: "clock (fire i p) = max (clock p) (due (timers p ! i))"
  by (cases "action (timers p ! i)")
     (simp_all add: fire_fired fired_def run_callback_def typing_tick_def hide_success_def
        clearInterval_def split: option.splits)

lemma clock_run_until: "clock (run_until t p) = max (clock p) t"
proof (induction t p rule: run_until.induct)
  case (1 t p)
  show ?case
  proof (cases "next_timer t p")
    case None
    then show ?thesis by (simp add: run_until.simps [of t p])
  next
    case (Some i)
    then have "due (timers p ! i) \<le> t" by (auto dest: next_timer_SomeD)
    with "1.IH" [OF Some] Some show ?thesis
      by (simp add: run_until.simps [of t p] clock_fire)
  qed
qed

lemma formSuccess_run_until_None:
  "formSuccess (run_until t p) = None \<longleftrightarrow> formSuccess p = None"
proof (induction t p rule: run_until.induct)
  case (1 t p)
  show ?case
  proof (cases "next_timer t p")
    case None
    then show ?thesis by (simp add: run_until.simps [of t p])
  next
    case (Some i)
    with "1.IH" [OF Some] show ?thesis
      by (simp add: run_until.simps [of t p] formSuccess_fire)
  qed
qed

lemma timers_ok_run_until: "timers_ok p \<Longrightarrow> timers_ok (run_until t p)"
proof (induction t p rule: run_until.induct)
  case (1 t p)
  show ?case
  proof (cases "next_timer t p")
    case None
    with "1.prems" show ?thesis
      by (auto simp: run_until.simps [of t p] timers_ok_def split: option.splits)
  next
    case (Some i)
    from "1.IH" [OF Some timers_ok_fire [OF "1.prems"]] Some show ?thesis
      by (simp add: run_until.simps [of t p])
  qed
qed

lemma hide_waits:
  assumes "timers_ok p" and "x \<in> set (timers p)" and "action x = HideSuccess" and "t < due x"
  shows "x \<in> set (timers (run_until t p))"
  using assms
proof (induction t p rule: run_until.induct)
  case (1 t p)
  show ?case
  proof (cases "next_timer t p")
    case None
    with "1.prems" show ?thesis by (simp add: run_until.simps [of t p])
  next
    case (Some i)
    then have i: "i < length (timers p)" "due (timers p ! i) \<le> t"
      by (auto dest: next_timer_SomeD)
    have kept: "x \<in> set (timers (fire i p))"
    proof (cases "action (timers p ! i)")
      case TypingTick
      with "1.prems" i show ?thesis by (intro hide_kept_by_tick) simp_all
    next
      case HideSuccess
      from "1.prems"(2) obtain j where j: "j < length (timers p)" "timers p ! j = x"
        by (auto simp: in_set_conv_nth)
      with i "1.prems"(4) have ne: "j \<noteq> i" by auto
      have "x \<in> set (timers (fired i p))"
      proof (cases "every (timers p ! i)")
        case None
        have "timers p = take i (timers p) @ timers p ! i # drop (Suc i) (timers p)"
          using i(1) by (rule id_take_nth_drop)
        then have "set (timers p) = set (take i (timers p)) \<union> {timers p ! i} \<union> set (drop (Suc i) (timers p))"
          by (metis list.simps(15) set_append Un_assoc insert_is_Un)
        moreover have "x \<noteq> timers p ! i" using i(2) "1.prems"(4) by auto
        ultimately show ?thesis using "1.prems"(2) None by (auto simp: fired_def)
      next
        case (Some ms)
        from j ne have "(timers p)[i := (timers p ! i)\<lparr>due := due (timers p ! i) + max 1 ms\<rparr>] ! j = x"
          by simp
        with j Some show ?thesis
          by (auto simp: fired_def in_set_conv_nth intro!: exI [of _ j])
      qed
      with HideSuccess show ?thesis
        by (simp add: fire_fired run_callback_def hide_success_def)
    qed
    from "1.IH" [OF Some timers_ok_fire [OF "1.prems"(1)] kept "1.prems"(3,4)] Some
    show ?thesis by (simp add: run_until.simps [of t p])
  qed
qed

subsection \<open>The form stays ready\<close>

lemma form_ready_after_validation: "form_ready (after_validation p) = form_ready p"
  by (simp add: form_ready_def has_error_box_after_validation)

lemma form_ready_submitted: "form_ready (submitted p) = form_ready p"
  by (simp add: form_ready_def submitted_inputs(1) submitted_success(3))

lemma form_ready_submit:
  assumes "form_ready p"
  shows "form_ready (page_after (handleFormSubmit p))"
proof (cases "all_valid p")
  case False
  with assms show ?thesis
    by (simp add: submit_result page_after_def form_ready_after_validation)
next
  case True
  with assms show ?thesis
    by (simp add: valid_submit_result page_after_def form_ready_submitted)
qed

lemma form_ready_run_until: "form_ready (run_until t p) = form_ready p"
  by (simp add: form_ready_def has_error_box_def run_until_unchanged
      formSuccess_run_until_None)

lemma user_types_frame:
  "timers (user_types f v p) = timers p" "clock (user_types f v p) = clock p"
  "typing (user_types f v p) = typing p" "next_timer_id (user_types f v p) = next_timer_id p"
  "formSuccess (user_types f v p) = formSuccess p"
  "contactForm (user_types f v p) = contactForm p"
  "bound (user_types f v p) = bound p" "typingText (user_types f v p) = typingText p"
  "fadeElements (user_types f v p) = fadeElements p"
  by (cases "inputs p f"; simp add: user_types_def)+

lemma filled_frame:
  "timers (filled n e m p) = timers p" "clock (filled n e m p) = clock p"
  "typing (filled n e m p) = typing p" "next_timer_id (filled n e m p) = next_timer_id p"
  "formSuccess (filled n e m p) = formSuccess p" "contactForm (filled n e m p) = contactForm p"
  "bound (filled n e m p) = bound p"
  by (simp_all add: filled_def user_types_frame)

lemma inputs_user_types:
  "inputs (user_types f v p) g =
     (if g = f then map_option (\<lambda>input. input\<lparr>val := v\<rparr>) (inputs p f) else inputs p g)"
  by (cases "inputs p f") (simp_all add: user_types_def)

lemma has_error_box_user_types: "has_error_box (user_types f v p) g = has_error_box p g"
  by (cases "inputs p f") (simp_all add: has_error_box_boxed inputs_user_types boxed_def)

lemma entered_user_types:
  "entered (user_types f v p) g =
     (if g = f \<and> inputs p f \<noteq> None then trim v else entered p g)"
  by (cases "inputs p f") (simp_all add: entered_def inputs_user_types)

lemma has_error_box_inputs: "has_error_box p f \<Longrightarrow> inputs p f \<noteq> None"
  by (cases "inputs p f") (simp_all add: has_error_box_def)

lemma filled_ready:
  assumes "form_ready p"
  shows "form_ready (filled n e m p)"
    and "entered (filled n e m p) ''name'' = trim n"
    and "entered (filled n e m p) ''email'' = trim e"
    and "entered (filled n e m p) ''message'' = trim m"
proof -
  from assms have boxes: "inputs p ''name'' \<noteq> None" "inputs p ''email'' \<noteq> None"
    "inputs p ''message'' \<noteq> None"
    by (simp_all add: form_ready_def has_error_box_inputs)
  show "form_ready (filled n e m p)"
    using assms
    by (simp add: form_ready_def filled_def has_error_box_user_types user_types_frame)
  show "entered (filled n e m p) ''name'' = trim n"
    "entered (filled n e m p) ''email'' = trim e"
    "entered (filled n e m p) ''message'' = trim m"
    using boxes by (simp_all add: filled_def entered_user_types inputs_user_types)
qed

lemma timers_ok_filled: "timers_ok (filled n e m p) = timers_ok p"
  by (cases "typing p") (simp_all add: timers_ok_def filled_frame)

section \<open>A second submit within five seconds\<close>

text \<open>
  C10. Take a page with the form's markup in place, a sound timer table and a valid
  entry, on which an earlier timeout that hides the success element is still pending,
  due less than 5000 ms from now. The submit completes and displays the success element;
  the earlier timeout is still in the table afterwards (nothing cancels it), and when the
  time reaches its due moment the element is hidden: the message of this submit was
  displayed for less than 5000 ms.
\<close>

theorem early_hide:
  assumes "form_ready p"
    and "entered p ''name'' \<noteq> []" and "entered p ''email'' \<noteq> []"
    and "entered p ''message'' \<noteq> []" and "validateEmail (entered p ''email'')"
    and "timers_ok p"
    and "x \<in> set (timers p)" and "action x = HideSuccess"
    and "clock p \<le> due x" and "due x < clock p + 5000"
  shows "\<exists>p'. handleFormSubmit p = Inr p'
     \<and> success_display p' = Some ''block''
     \<and> x \<in> set (timers p')
     \<and> success_display (run_until (due x) p') = Some ''none''"
proof -
  from assms have valid: "all_valid p" by (simp add: all_valid_iff)
  have result: "handleFormSubmit p = Inr (submitted p)"
    using assms(1) valid by (rule valid_submit_result)
  have success: "formSuccess p \<noteq> None"
    using assms(1) by (simp add: form_ready_def)
  have x': "x \<in> set (timers (submitted p))"
    using assms(7) by simp
  have "success_display (run_until (due x) (submitted p)) = Some ''none''"
    by (rule due_hide_hides [OF timers_ok_submitted [OF assms(6)] x' assms(8)])
       (simp_all add: submitted_success success)
  moreover have "success_display (submitted p) = Some ''block''"
    using success by (simp add: submitted_success)
  ultimately show ?thesis
    using result x' by simp
qed

text \<open>
  The visitor submits, waits two seconds and fills the form in again. The timeout of the
  first submit is still pending.
\<close>

definition returning :: page where
  "returning =
     filled ''Bob'' ''b@c.de'' ''Again'' (step (step visitor FormSubmit) (TimePasses 2000))"

definition first_hide :: timer where
  "first_hide = \<lparr>timer_id = 2, due = 5000, action = HideSuccess, every = None\<rparr>"

lemma first_submit:
  "step visitor FormSubmit = submitted visitor"
  "hide_timer visitor = first_hide"
proof -
  have valid: "all_valid visitor"
    by (simp add: all_valid_iff visitor_ready validateEmail_def email_re_def is_space_def)
  show "step visitor FormSubmit = submitted visitor"
    by (simp add: step_def dispatch_def visitor_ready page_after_def
        valid_submit_result [OF visitor_ready(1) valid])
  have "next_timer_id visitor = 2"
    by (simp add: visitor_def filled_frame eval_page)
  then show "hide_timer visitor = first_hide"
    by (simp add: hide_timer_def first_hide_def visitor_ready)
qed

lemma returning_ready:
  "form_ready returning" "timers_ok returning" "on_submit (bound returning)"
  "clock returning = 2000" "first_hide \<in> set (timers returning)"
  "entered returning ''name'' = ''Bob''" "entered returning ''email'' = ''b@c.de''"
  "entered returning ''message'' = ''Again''"
proof -
  let ?p1 = "submitted visitor"
  let ?p2 = "run_until 2000 ?p1"
  have ready1: "form_ready ?p1"
    by (simp add: form_ready_submitted visitor_ready)
  have ok1: "timers_ok ?p1"
    by (rule timers_ok_submitted) (rule visitor_ready)
  have s2: "step ?p1 (TimePasses 2000) = ?p2"
    by (simp add: step_def dispatch_def page_after_def visitor_ready)
  have ret: "returning = filled ''Bob'' ''b@c.de'' ''Again'' ?p2"
    by (simp add: returning_def first_submit(1) s2)
  have ready2: "form_ready ?p2"
    using ready1 by (simp add: form_ready_run_until)
  have hide2: "first_hide \<in> set (timers ?p2)"
    by (rule hide_waits [OF ok1]) (simp_all add: first_submit(2) first_hide_def)
  show "form_ready returning"
    unfolding ret using ready2 by (rule filled_ready(1))
  show "timers_ok returning"
    unfolding ret using ok1 by (simp add: timers_ok_filled timers_ok_run_until)
  show "on_submit (bound returning)"
    unfolding ret by (simp add: filled_frame run_until_unchanged visitor_ready)
  show "clock returning = 2000"
    unfolding ret by (simp add: filled_frame clock_run_until visitor_ready)
  show "first_hide \<in> set (timers returning)"
    unfolding ret using hide2 by (simp add: filled_frame)
  show "entered returning ''name'' = ''Bob''"
    unfolding ret by (simp add: filled_ready(2) [OF ready2] trim_def is_space_def)
  show "entered returning ''email'' = ''b@c.de''"
    unfolding ret by (simp add: filled_ready(3) [OF ready2] trim_def is_space_def)
  show "entered returning ''message'' = ''Again''"
    unfolding ret by (simp add: filled_ready(4) [OF ready2] trim_def is_space_def)
qed

theorem early_hide_witness:
  "form_ready returning \<and> timers_ok returning
   \<and> entered returning ''name'' \<noteq> [] \<and> entered returning ''email'' \<noteq> []
   \<and> entered returning ''message'' \<noteq> [] \<and> validateEmail (entered returning ''email'')
   \<and> first_hide \<in> set (timers returning) \<and> action first_hide = HideSuccess
   \<and> clock returning = 2000 \<and> due first_hide = 5000
   \<and> success_display (step returning FormSubmit) = Some ''block''
   \<and> success_display (run_until 5000 (step returning FormSubmit)) = Some ''none''"
proof -
  have email: "validateEmail ''b@c.de''"
    by (simp add: validateEmail_def email_re_def is_space_def)
  have hide: "action first_hide = HideSuccess" "due first_hide = 5000"
    by (simp_all add: first_hide_def)
  have "\<exists>p'. handleFormSubmit returning = Inr p'
     \<and> success_display p' = Some ''block''
     \<and> first_hide \<in> set (timers p')
     \<and> success_display (run_until (due first_hide) p') = Some ''none''"
    by (rule early_hide [of returning first_hide])
       (simp_all add: returning_ready email hide)
  then obtain p' where p': "handleFormSubmit returning = Inr p'"
    "success_display p' = Some ''block''"
    "success_display (run_until 5000 p') = Some ''none''"
    by (auto simp: hide)
  have "step returning FormSubmit = p'"
    by (simp add: step_def dispatch_def page_after_def returning_ready p'(1))
  with p'(2,3) show ?thesis
    by (simp add: returning_ready email hide)
qed

section \<open>A submit with an empty field\<close>















section \<open>What the handlers leave alone\<close>




















section \<open>Fade-in elements\<close>

















subsection \<open>What loading does to the flagged elements\<close>











section \<open>The typing effect\<close>

subsection \<open>One timer among many\<close>







subsection \<open>The state of the effect\<close>











subsection \<open>Other events do not disturb the effect\<close>








subsection \<open>What is on the page at a given time\<close>


subsection \<open>Starting the effect\<close>




subsection \<open>Tick by tick\<close>



subsection \<open>The sample page, typing\<close>




end
